theory Spec2Isabelle
  imports Complex_Main "HOL-Library.Word"
begin

section \<open>Credential pool (host\_manager.py)\<close>

text \<open>
  \<^verbatim>\<open>APICredential\<close> is a mutable dataclass. The pool's list and every
  \<^verbatim>\<open>UserInstance\<close> hold references to such objects, so the objects live in a
  store indexed by address and the list holds addresses. Timestamps are Python floats
  used only as stamps; they are modelled as reals. The integer fields are Python ints.
\<close>

record APICredential =
  api_id :: int
  api_hash :: string
  app_name :: string
  in_use :: int
  max_users :: int
  created_at :: real
  last_used :: real

type_synonym cred_ref = nat

text \<open>
  External effects of the host manager, in program order: the two JSON files it rewrites,
  the files it renders into a user's directory, the processes it signals and spawns, and
  the directory trees it removes.
\<close>

datatype effect =
    Save_credentials
  | Save_user_instances
  | Write_config int
  | Copy_bot_files int
  | Spawn int int
  | Kill int
  | Rmtree int

datatype fspath = No_path | User_root int | Child fspath string

record UserInstance =
  user_id :: int
  phone :: string
  api_credential :: cred_ref
  process_id :: "int option"
  status :: string
  inst_created_at :: real
  last_activity :: real
  session_path :: fspath
  config_path :: fspath

text \<open>
  The state of \<^verbatim>\<open>HostManager\<close>: the credential objects, the pool's list
  \<^verbatim>\<open>api_pool.credentials\<close>, the dictionary \<^verbatim>\<open>user_instances\<close>, the set of
  user ids whose directory \<^verbatim>\<open>user_instances/user_<id>\<close> exists, and the effects
  performed so far.
\<close>

record HostManager =
  cred_objs :: "cred_ref \<Rightarrow> APICredential"
  credentials :: "cred_ref list"
  user_instances :: "int \<rightharpoonup> UserInstance"
  user_dirs :: "int set"
  effects :: "effect list"

definition eligible :: "HostManager \<Rightarrow> cred_ref \<Rightarrow> bool" where
  "eligible s a = (in_use (cred_objs s a) < max_users (cred_objs s a))"

text \<open>
  Python's \<^verbatim>\<open>min(xs, key=k)\<close>: the running minimum is replaced only by a strictly
  smaller key, so the first minimal element wins; on an empty sequence it raises.
\<close>

fun py_min_from :: "('a \<Rightarrow> int) \<Rightarrow> 'a \<Rightarrow> 'a list \<Rightarrow> 'a" where
  "py_min_from key m [] = m"
| "py_min_from key m (x # xs) = py_min_from key (if key x < key m then x else m) xs"

fun py_min :: "('a \<Rightarrow> int) \<Rightarrow> 'a list \<Rightarrow> 'a option" where
  "py_min key [] = None"
| "py_min key (x # xs) = Some (py_min_from key x xs)"

definition get_available_credential :: "HostManager \<Rightarrow> cred_ref option" where
  "get_available_credential s =
     (let available = filter (eligible s) (credentials s)
      in if available = [] then None
         else py_min (\<lambda>x. in_use (cred_objs s x)) available)"

definition allocate_credential :: "cred_ref \<Rightarrow> real \<Rightarrow> HostManager \<Rightarrow> bool \<times> HostManager" where
  "allocate_credential a now s =
     (if in_use (cred_objs s a) \<ge> max_users (cred_objs s a) then (False, s)
      else (True, s\<lparr>cred_objs := (cred_objs s)
                        (a := (cred_objs s a)\<lparr>in_use := in_use (cred_objs s a) + 1,
                                         last_used := now\<rparr>),
                     effects := effects s @ [Save_credentials]\<rparr>))"

definition release_credential :: "cred_ref \<Rightarrow> HostManager \<Rightarrow> bool \<times> HostManager" where
  "release_credential a s =
     (if in_use (cred_objs s a) > 0
      then (True, s\<lparr>cred_objs := (cred_objs s)
                        (a := (cred_objs s a)\<lparr>in_use := in_use (cred_objs s a) - 1\<rparr>),
                     effects := effects s @ [Save_credentials]\<rparr>)
      else (False, s))"

section \<open>Host manager (host\_manager.py)\<close>

text \<open>
  The methods return a Python bool. The model returns which branch produced it:
  \<open>Inr ()\<close> is \<^verbatim>\<open>return True\<close>, \<open>Inl e\<close> is \<^verbatim>\<open>return False\<close> from the branch
  named by \<open>e\<close> (the branch's log message in the source).
\<close>

datatype host_error =
    Already_has_instance
  | No_available_credentials
  | Failed_to_allocate
  | No_instance_found
  | Raised

definition returns_true :: "host_error + unit \<Rightarrow> bool" where
  "returns_true r = (case r of Inr _ \<Rightarrow> True | Inl _ \<Rightarrow> False)"

text \<open>
  What the file system does during \<^verbatim>\<open>create_user_config\<close>: it completes, or a
  call raises before the user's directory exists, or after it was made.
\<close>

datatype config_outcome = Config_written | Raises_before_mkdir | Raises_after_mkdir

record create_env =
  now_allocated :: real
  config_result :: config_outcome
  now_created :: real

definition create_user_instance ::
  "int \<Rightarrow> string \<Rightarrow> string \<Rightarrow> create_env \<Rightarrow> HostManager \<Rightarrow> (host_error + unit) \<times> HostManager" where
  "create_user_instance uid ph openai_key env s =
     (if uid \<in> dom (user_instances s) then (Inl Already_has_instance, s)
      else case get_available_credential s of
        None \<Rightarrow> (Inl No_available_credentials, s)
      | Some api_cred \<Rightarrow>
          (case allocate_credential api_cred (now_allocated env) s of
             (False, s1) \<Rightarrow> (Inl Failed_to_allocate, s1)
           | (True, s1) \<Rightarrow>
               (case config_result env of
                  Raises_before_mkdir \<Rightarrow> (Inl Raised, s1)
                | Raises_after_mkdir \<Rightarrow>
                    (Inl Raised, s1\<lparr>user_dirs := insert uid (user_dirs s1)\<rparr>)
                | Config_written \<Rightarrow>
                    (let s2 = s1\<lparr>user_dirs := insert uid (user_dirs s1),
                                   effects := effects s1 @ [Write_config uid]\<rparr>;
                         instance = \<lparr>user_id = uid, phone = ph, api_credential = api_cred,
                                     process_id = None, status = ''inactive'',
                                     inst_created_at = now_created env, last_activity = 0,
                                     session_path = Child (User_root uid) ''sessions'',
                                     config_path = Child (User_root uid) ''.env''\<rparr>
                     in (Inr (),
                         s2\<lparr>user_instances := (user_instances s2)(uid \<mapsto> instance),
                            effects := effects s2 @ [Save_user_instances]\<rparr>)))))"

text \<open>
  What \<^verbatim>\<open>start_user_bot\<close> meets outside: copying the bot files raises, or the
  copy completes and spawning raises, or the process starts with the given pid.
\<close>

datatype spawn_outcome = Copy_raises | Spawn_raises | Spawned int

definition start_user_bot ::
  "int \<Rightarrow> spawn_outcome \<Rightarrow> real \<Rightarrow> HostManager \<Rightarrow> (host_error + unit) \<times> HostManager" where
  "start_user_bot uid outcome now s =
     (case user_instances s uid of
        None \<Rightarrow> (Inl No_instance_found, s)
      | Some instance \<Rightarrow>
          if status instance = ''active'' then (Inr (), s)
          else (case outcome of
                  Copy_raises \<Rightarrow>
                    (Inl Raised, s\<lparr>effects := effects s @ [Copy_bot_files uid]\<rparr>)
                | Spawn_raises \<Rightarrow>
                    (Inl Raised, s\<lparr>effects := effects s @ [Copy_bot_files uid]\<rparr>)
                | Spawned pid \<Rightarrow>
                    (Inr (),
                     s\<lparr>user_instances := (user_instances s)
                          (uid \<mapsto> instance\<lparr>process_id := Some pid, status := ''active'',
                                           last_activity := now\<rparr>),
                        effects := effects s
                          @ [Copy_bot_files uid, Spawn uid pid, Save_user_instances]\<rparr>)))"

text \<open>
  \<^verbatim>\<open>os.kill\<close> delivers the signal, raises \<^verbatim>\<open>ProcessLookupError\<close> (tolerated), or
  raises something else (caught by the outer handler, which returns False).
  \<^verbatim>\<open>if instance.process_id\<close> is false for \<^verbatim>\<open>None\<close> and for pid 0.
\<close>

datatype kill_outcome = Signal_sent | Process_not_found | Kill_raises

definition pid_truthy :: "int option \<Rightarrow> bool" where
  "pid_truthy p = (case p of None \<Rightarrow> False | Some n \<Rightarrow> n \<noteq> 0)"

definition stop_user_bot ::
  "int \<Rightarrow> kill_outcome \<Rightarrow> HostManager \<Rightarrow> (host_error + unit) \<times> HostManager" where
  "stop_user_bot uid outcome s =
     (case user_instances s uid of
        None \<Rightarrow> (Inr (), s)
      | Some instance \<Rightarrow>
          if status instance \<noteq> ''active'' then (Inr (), s)
          else (let s1 = (if pid_truthy (process_id instance)
                          then s\<lparr>effects := effects s @ [Kill (the (process_id instance))]\<rparr>
                          else s)
                in if pid_truthy (process_id instance) \<and> outcome = Kill_raises
                   then (Inl Raised, s1)
                   else (Inr (),
                         s1\<lparr>user_instances := (user_instances s1)
                              (uid \<mapsto> instance\<lparr>process_id := None, status := ''inactive''\<rparr>),
                            effects := effects s1 @ [Save_user_instances]\<rparr>)))"

text \<open>
  \<^verbatim>\<open>remove_user_instance\<close> ignores what \<^verbatim>\<open>stop_user_bot\<close> and
  \<^verbatim>\<open>release_credential\<close> return. \<^verbatim>\<open>shutil.rmtree\<close> may raise; the directory
  itself is the last thing it removes, so it still exists then. The two save methods
  catch their own exceptions, so a failed write of a JSON file changes no result; the
  effect records the call.
\<close>

definition remove_user_instance ::
  "int \<Rightarrow> kill_outcome \<Rightarrow> bool \<Rightarrow> HostManager \<Rightarrow> (host_error + unit) \<times> HostManager" where
  "remove_user_instance uid kill_result rmtree_raises s =
     (let s1 = snd (stop_user_bot uid kill_result s);
          s2 = (case user_instances s1 uid of
                  None \<Rightarrow> s1
                | Some instance \<Rightarrow>
                    (let s' = snd (release_credential (api_credential instance) s1)
                     in s'\<lparr>user_instances := (user_instances s')(uid := None),
                           effects := effects s' @ [Save_user_instances]\<rparr>))
      in if uid \<in> user_dirs s2
         then (if rmtree_raises
               then (Inl Raised, s2\<lparr>effects := effects s2 @ [Rmtree uid]\<rparr>)
               else (Inr (), s2\<lparr>user_dirs := user_dirs s2 - {uid},
                                 effects := effects s2 @ [Rmtree uid]\<rparr>))
         else (Inr (), s2))"

section \<open>Authentication sessions (session\_manager.py)\<close>

record AuthSession =
  auth_user_id :: int
  auth_phone :: string
  auth_api_id :: int
  auth_api_hash :: string
  session_file :: fspath
  auth_status :: string
  code_hash :: "string option"
  auth_created_at :: real
  expires_at :: real

text \<open>A \<^verbatim>\<open>TelegramClient\<close> object, by the arguments it was constructed from.\<close>

record TelegramClient =
  client_session_file :: fspath
  client_api_id :: int
  client_api_hash :: string

text \<open>The requests made to the provider through a user's client, in program order.\<close>

datatype provider_call =
    Connect
  | Is_user_authorized
  | Send_code_request string
  | Sign_in_code string string "string option"
  | Sign_in_password string
  | Disconnect

record TelegramSessionManager =
  active_sessions :: "int \<rightharpoonup> AuthSession"
  authenticated_clients :: "int \<rightharpoonup> TelegramClient"
  provider_calls :: "int \<Rightarrow> provider_call list"

definition init_session_manager :: TelegramSessionManager where
  "init_session_manager =
     \<lparr>active_sessions = Map.empty, authenticated_clients = Map.empty,
      provider_calls = (\<lambda>_. [])\<rparr>"

text \<open>The dictionary every method returns (\<^verbatim>\<open>phone\<close> is present in one of them only).\<close>

record auth_result =
  success :: bool
  result_status :: string
  message :: string
  result_phone :: "string option"

definition failure :: "string \<Rightarrow> auth_result" where
  "failure msg = \<lparr>success = False, result_status = ''error'', message = msg,
                  result_phone = None\<rparr>"

definition called :: "int \<Rightarrow> provider_call list \<Rightarrow> TelegramSessionManager \<Rightarrow> TelegramSessionManager" where
  "called uid cs s = s\<lparr>provider_calls := (provider_calls s)(uid := provider_calls s uid @ cs)\<rparr>"

definition telegram_session_path :: "int \<Rightarrow> fspath" where
  "telegram_session_path uid = Child (Child (User_root uid) ''sessions'') ''telegram_session''"

text \<open>
  What happens outside during \<^verbatim>\<open>start_authentication\<close>. A raised exception carries
  its text; \<open>Code_sent h t1 t2\<close> is a code request answered with hash \<open>h\<close>, followed
  by the two readings of the clock.
\<close>

datatype start_outcome =
    Mkdir_raises string
  | Connect_raises string
  | Authorized_raises string
  | Already_authorized
  | Phone_number_invalid
  | Send_code_raises string
  | Code_sent string real real

definition start_authentication ::
  "int \<Rightarrow> string \<Rightarrow> int \<Rightarrow> string \<Rightarrow> start_outcome \<Rightarrow> TelegramSessionManager
     \<Rightarrow> auth_result \<times> TelegramSessionManager" where
  "start_authentication uid ph aid ahash outcome s =
     (let client = \<lparr>client_session_file = telegram_session_path uid,
                     client_api_id = aid, client_api_hash = ahash\<rparr>
      in case outcome of
        Mkdir_raises e \<Rightarrow> (failure (''Authentication error: '' @ e), s)
      | Connect_raises e \<Rightarrow>
          (failure (''Authentication error: '' @ e), called uid [Connect] s)
      | Authorized_raises e \<Rightarrow>
          (failure (''Authentication error: '' @ e),
           called uid [Connect, Is_user_authorized] s)
      | Already_authorized \<Rightarrow>
          (\<lparr>success = True, result_status = ''already_authenticated'',
            message = ''User is already authenticated'', result_phone = None\<rparr>,
           (called uid [Connect, Is_user_authorized] s)
             \<lparr>authenticated_clients := (authenticated_clients s)(uid \<mapsto> client)\<rparr>)
      | Phone_number_invalid \<Rightarrow>
          (failure ''Invalid phone number format'',
           called uid [Connect, Is_user_authorized, Send_code_request ph] s)
      | Send_code_raises e \<Rightarrow>
          (failure (''Authentication error: '' @ e),
           called uid [Connect, Is_user_authorized, Send_code_request ph] s)
      | Code_sent h t1 t2 \<Rightarrow>
          (let auth_session =
                 \<lparr>auth_user_id = uid, auth_phone = ph, auth_api_id = aid,
                  auth_api_hash = ahash, session_file = telegram_session_path uid,
                  auth_status = ''code_sent'', code_hash = Some h,
                  auth_created_at = t1, expires_at = t2 + 300\<rparr>
           in (\<lparr>success = True, result_status = ''code_sent'',
                message = ''Verification code sent to '' @ ph, result_phone = Some ph\<rparr>,
               (called uid [Connect, Is_user_authorized, Send_code_request ph] s)
                 \<lparr>active_sessions := (active_sessions s)(uid \<mapsto> auth_session),
                  authenticated_clients := (authenticated_clients s)(uid \<mapsto> client)\<rparr>)))"

text \<open>
  The provider's answer to \<^verbatim>\<open>client.sign_in(phone, code, phone_code_hash=...)\<close>:
  it returns, or raises \<^verbatim>\<open>SessionPasswordNeededError\<close>, \<^verbatim>\<open>PhoneCodeInvalidError\<close>
  or another exception with the given text.
\<close>

datatype sign_in_outcome = Signed_in | Password_needed | Code_invalid | Sign_in_raises string

definition verify_code ::
  "int \<Rightarrow> string \<Rightarrow> real \<Rightarrow> sign_in_outcome \<Rightarrow> TelegramSessionManager
     \<Rightarrow> auth_result \<times> TelegramSessionManager" where
  "verify_code uid code now outcome s =
     (case active_sessions s uid of
        None \<Rightarrow> (failure ''No active authentication session'', s)
      | Some auth_session \<Rightarrow>
          if now > expires_at auth_session
          then (failure ''Authentication session expired'',
                s\<lparr>active_sessions := (active_sessions s)(uid := None)\<rparr>)
          else (case authenticated_clients s uid of
                  None \<Rightarrow> (failure ''Client not found'', s)
                | Some client \<Rightarrow>
                    (let s1 = called uid
                           [Sign_in_code (auth_phone auth_session) code (code_hash auth_session)] s
                     in case outcome of
                          Signed_in \<Rightarrow>
                            (\<lparr>success = True, result_status = ''authenticated'',
                              message = ''Authentication successful'', result_phone = None\<rparr>,
                             s1\<lparr>active_sessions := (active_sessions s1)
                                  (uid \<mapsto> auth_session\<lparr>auth_status := ''authenticated''\<rparr>)\<rparr>)
                        | Password_needed \<Rightarrow>
                            (\<lparr>success = False, result_status = ''password_required'',
                              message = ''Two-factor authentication password required'',
                              result_phone = None\<rparr>,
                             s1\<lparr>active_sessions := (active_sessions s1)
                                  (uid \<mapsto> auth_session\<lparr>auth_status := ''password_required''\<rparr>)\<rparr>)
                        | Code_invalid \<Rightarrow> (failure ''Invalid verification code'', s1)
                        | Sign_in_raises e \<Rightarrow>
                            (failure (''Verification error: '' @ e), s1))))"

text \<open>
  The provider's answer to \<^verbatim>\<open>client.sign_in(password=...)\<close>: it returns or raises.
  \<^verbatim>\<open>verify_password\<close> does not read the clock.
\<close>

datatype password_outcome = Password_accepted | Password_raises string

definition verify_password ::
  "int \<Rightarrow> string \<Rightarrow> password_outcome \<Rightarrow> TelegramSessionManager
     \<Rightarrow> auth_result \<times> TelegramSessionManager" where
  "verify_password uid password outcome s =
     (case active_sessions s uid of
        None \<Rightarrow> (failure ''No password verification required'', s)
      | Some auth_session \<Rightarrow>
          if auth_status auth_session \<noteq> ''password_required''
          then (failure ''No password verification required'', s)
          else (case authenticated_clients s uid of
                  None \<Rightarrow> (failure ''Client not found'', s)
                | Some client \<Rightarrow>
                    (let s1 = called uid [Sign_in_password password] s
                     in case outcome of
                          Password_accepted \<Rightarrow>
                            (\<lparr>success = True, result_status = ''authenticated'',
                              message = ''Two-factor authentication successful'',
                              result_phone = None\<rparr>,
                             s1\<lparr>active_sessions := (active_sessions s1)
                                  (uid \<mapsto> auth_session\<lparr>auth_status := ''authenticated''\<rparr>)\<rparr>)
                        | Password_raises e \<Rightarrow>
                            (failure (''Password verification error: '' @ e), s1))))"

definition disconnect_user :: "int \<Rightarrow> bool \<Rightarrow> TelegramSessionManager \<Rightarrow> bool \<times> TelegramSessionManager" where
  "disconnect_user uid disconnect_raises s =
     (case authenticated_clients s uid of
        Some client \<Rightarrow>
          if disconnect_raises then (False, called uid [Disconnect] s)
          else (let s1 = (called uid [Disconnect] s)
                           \<lparr>authenticated_clients := (authenticated_clients s)(uid := None)\<rparr>
                in (True, s1\<lparr>active_sessions := (active_sessions s1)(uid := None)\<rparr>))
      | None \<Rightarrow> (True, s\<lparr>active_sessions := (active_sessions s)(uid := None)\<rparr>))"

text \<open>
  \<^verbatim>\<open>cleanup_expired_sessions\<close> disconnects every user whose session is past its
  deadline and not authenticated. \<^verbatim>\<open>disconnect_user\<close> touches the entries of its own
  user only, so the loop over the dictionary is written user by user.
\<close>

definition expired_unauthenticated :: "real \<Rightarrow> TelegramSessionManager \<Rightarrow> int \<Rightarrow> bool" where
  "expired_unauthenticated current_time s uid =
     (case active_sessions s uid of
        None \<Rightarrow> False
      | Some session \<Rightarrow>
          current_time > expires_at session \<and> auth_status session \<noteq> ''authenticated'')"

definition cleanup_expired_sessions ::
  "real \<Rightarrow> (int \<Rightarrow> bool) \<Rightarrow> TelegramSessionManager \<Rightarrow> TelegramSessionManager" where
  "cleanup_expired_sessions current_time disconnect_raises s =
     (let after = (\<lambda>uid. if expired_unauthenticated current_time s uid
                          then snd (disconnect_user uid (disconnect_raises uid) s) else s)
      in \<lparr>active_sessions = (\<lambda>uid. active_sessions (after uid) uid),
          authenticated_clients = (\<lambda>uid. authenticated_clients (after uid) uid),
          provider_calls = (\<lambda>uid. provider_calls (after uid) uid)\<rparr>)"

text \<open>The status stored for a user's session, if there is a session.\<close>

definition stored_status :: "TelegramSessionManager \<Rightarrow> int \<Rightarrow> string option" where
  "stored_status s uid = map_option auth_status (active_sessions s uid)"

text \<open>The operations on the session manager, each with what it meets outside.\<close>

datatype auth_op =
    Start_authentication int string int string start_outcome
  | Verify_code int string real sign_in_outcome
  | Verify_password int string password_outcome
  | Disconnect_user int bool
  | Cleanup_expired_sessions real "int \<Rightarrow> bool"

fun step :: "auth_op \<Rightarrow> TelegramSessionManager \<Rightarrow> TelegramSessionManager" where
  "step (Start_authentication uid ph aid ahash outcome) s =
     snd (start_authentication uid ph aid ahash outcome s)"
| "step (Verify_code uid code now outcome) s = snd (verify_code uid code now outcome s)"
| "step (Verify_password uid password outcome) s = snd (verify_password uid password outcome s)"
| "step (Disconnect_user uid raises) s = snd (disconnect_user uid raises s)"
| "step (Cleanup_expired_sessions now raises) s = cleanup_expired_sessions now raises s"

fun run :: "auth_op list \<Rightarrow> TelegramSessionManager \<Rightarrow> TelegramSessionManager" where
  "run [] s = s"
| "run (op # ops) s = run ops (step op s)"

section \<open>Authentication proxy (auth\_proxy.py)\<close>

text \<open>
  The only caller of the session manager. \<^verbatim>\<open>pending_auth\<close> records, per user, the step
  the wizard is waiting for; the proxy works on the two global managers. The handlers
  change the state before they send any reply to the chat, so the replies (and the
  handlers' own boolean results, which depend on them) are left out and each handler is
  the state it leaves.
\<close>

record pending =
  pending_phone :: string
  pending_api_id :: int
  pending_api_hash :: string
  auth_step :: string

record AuthenticationProxy =
  pending_auth :: "int \<rightharpoonup> pending"
  session_manager :: TelegramSessionManager
  host_manager :: HostManager

definition init_proxy :: "HostManager \<Rightarrow> AuthenticationProxy" where
  "init_proxy hm = \<lparr>pending_auth = Map.empty, session_manager = init_session_manager,
                     host_manager = hm\<rparr>"

record complete_env =
  create_result :: create_env
  start_result :: spawn_outcome
  start_time :: real

text \<open>
  \<^verbatim>\<open>_complete_authentication\<close>: what \<^verbatim>\<open>create_user_instance\<close> and
  \<^verbatim>\<open>start_user_bot\<close> meet outside is given by the environment.
\<close>

definition complete_authentication ::
  "int \<Rightarrow> complete_env \<Rightarrow> AuthenticationProxy \<Rightarrow> AuthenticationProxy" where
  "complete_authentication uid env h =
     (let ph = (case pending_auth h uid of
                  Some p \<Rightarrow> pending_phone p
                | None \<Rightarrow>
                    (case active_sessions (session_manager h) uid of
                       Some auth_session \<Rightarrow> auth_phone auth_session
                     | None \<Rightarrow> ''unknown''));
          h1 = h\<lparr>pending_auth := (pending_auth h)(uid := None)\<rparr>;
          created = create_user_instance uid ph ''SERVICE_PROVIDED'' (create_result env)
                      (host_manager h1)
      in if returns_true (fst created)
         then h1\<lparr>host_manager :=
                   snd (start_user_bot uid (start_result env) (start_time env) (snd created))\<rparr>
         else h1\<lparr>host_manager := snd created\<rparr>)"

definition start_phone_auth ::
  "int \<Rightarrow> string \<Rightarrow> int \<Rightarrow> string \<Rightarrow> start_outcome \<Rightarrow> complete_env
     \<Rightarrow> AuthenticationProxy \<Rightarrow> AuthenticationProxy" where
  "start_phone_auth uid ph aid ahash outcome env h =
     (let started = start_authentication uid ph aid ahash outcome (session_manager h);
          result = fst started;
          h1 = h\<lparr>session_manager := snd started\<rparr>
      in if success result
         then (if result_status result = ''already_authenticated''
               then complete_authentication uid env h1
               else if result_status result = ''code_sent''
               then h1\<lparr>pending_auth := (pending_auth h1)
                         (uid \<mapsto> \<lparr>pending_phone = ph, pending_api_id = aid,
                                   pending_api_hash = ahash, auth_step = ''code''\<rparr>)\<rparr>
               else h1)
         else h1)"

definition handle_verification_code ::
  "int \<Rightarrow> string \<Rightarrow> real \<Rightarrow> sign_in_outcome \<Rightarrow> complete_env
     \<Rightarrow> AuthenticationProxy \<Rightarrow> AuthenticationProxy" where
  "handle_verification_code uid code now outcome env h =
     (case pending_auth h uid of
        None \<Rightarrow> h
      | Some p \<Rightarrow>
          if auth_step p \<noteq> ''code'' then h
          else (let verified = verify_code uid code now outcome (session_manager h);
                    result = fst verified;
                    h1 = h\<lparr>session_manager := snd verified\<rparr>
                in if success result
                   then (if result_status result = ''authenticated''
                         then complete_authentication uid env h1 else h1)
                   else if result_status result = ''password_required''
                   then h1\<lparr>pending_auth := (pending_auth h1)
                             (uid \<mapsto> p\<lparr>auth_step := ''password''\<rparr>)\<rparr>
                   else h1))"

definition handle_2fa_password ::
  "int \<Rightarrow> string \<Rightarrow> password_outcome \<Rightarrow> complete_env
     \<Rightarrow> AuthenticationProxy \<Rightarrow> AuthenticationProxy" where
  "handle_2fa_password uid password outcome env h =
     (case pending_auth h uid of
        None \<Rightarrow> h
      | Some p \<Rightarrow>
          if auth_step p \<noteq> ''password'' then h
          else (let verified = verify_password uid password outcome (session_manager h);
                    result = fst verified;
                    h1 = h\<lparr>session_manager := snd verified\<rparr>
                in if success result then complete_authentication uid env h1 else h1))"

definition clear_pending_auth :: "int \<Rightarrow> AuthenticationProxy \<Rightarrow> AuthenticationProxy" where
  "clear_pending_auth uid h = h\<lparr>pending_auth := (pending_auth h)(uid := None)\<rparr>"

text \<open>
  The operations that reach the session manager: the three handlers,
  \<^verbatim>\<open>clear_pending_auth\<close>, and the session manager's own \<^verbatim>\<open>disconnect_user\<close> and
  \<^verbatim>\<open>cleanup_expired_sessions\<close> (its sweep), in any order.
\<close>

datatype proxy_op =
    Start_phone_auth int string int string start_outcome complete_env
  | Handle_verification_code int string real sign_in_outcome complete_env
  | Handle_2fa_password int string password_outcome complete_env
  | Clear_pending_auth int
  | Sweep_disconnect int bool
  | Sweep_expired real "int \<Rightarrow> bool"

fun proxy_step :: "proxy_op \<Rightarrow> AuthenticationProxy \<Rightarrow> AuthenticationProxy" where
  "proxy_step (Start_phone_auth uid ph aid ahash outcome env) h =
     start_phone_auth uid ph aid ahash outcome env h"
| "proxy_step (Handle_verification_code uid code now outcome env) h =
     handle_verification_code uid code now outcome env h"
| "proxy_step (Handle_2fa_password uid password outcome env) h =
     handle_2fa_password uid password outcome env h"
| "proxy_step (Clear_pending_auth uid) h = clear_pending_auth uid h"
| "proxy_step (Sweep_disconnect uid raises) h =
     h\<lparr>session_manager := snd (disconnect_user uid raises (session_manager h))\<rparr>"
| "proxy_step (Sweep_expired now raises) h =
     h\<lparr>session_manager := cleanup_expired_sessions now raises (session_manager h)\<rparr>"

fun proxy_run :: "proxy_op list \<Rightarrow> AuthenticationProxy \<Rightarrow> AuthenticationProxy" where
  "proxy_run [] h = h"
| "proxy_run (op # ops) h = proxy_run ops (proxy_step op h)"

section \<open>Secure cleanup (security\_manager.py)\<close>

text \<open>
  The file system as \<^verbatim>\<open>cleanup_user_data\<close> meets it. \<open>entries\<close> lists every name with
  what it names: a directory, a regular file (by the number of the file, so that two
  names may be hard links to one file) or a symbolic link (by its target); a walk meets
  the names in the order of the list. \<open>file_bytes\<close> holds the bytes stored for each file;
  removing a name does not touch them. \<open>under base p\<close> says that \<open>p\<close> lies strictly
  below \<open>base\<close>.
\<close>

datatype node = Directory | Regular_file nat | Symlink fspath

type_synonym directory_entries = "(fspath \<times> node) list"

fun under :: "fspath \<Rightarrow> fspath \<Rightarrow> bool" where
  "under base No_path = False"
| "under base (User_root uid) = False"
| "under base (Child p name) = (p = base \<or> under base p)"

text \<open>
  Following symbolic links from a path to the name and node it finally stands for. A
  chain of links that does not end within the given number of lookups is a loop (the
  system call fails, \<^verbatim>\<open>exists\<close> and \<^verbatim>\<open>is_file\<close> answer False); a chain without a
  loop is never longer than the list of entries. (The system's own limit on the length
  of a chain is not modelled.)
\<close>

fun resolve :: "nat \<Rightarrow> directory_entries \<Rightarrow> fspath \<Rightarrow> (fspath \<times> node) option" where
  "resolve 0 es p = None"
| "resolve (Suc n) es p =
     (case map_of es p of
        None \<Rightarrow> None
      | Some (Symlink target) \<Rightarrow> resolve n es target
      | Some nd \<Rightarrow> Some (p, nd))"

definition follow :: "directory_entries \<Rightarrow> fspath \<Rightarrow> (fspath \<times> node) option" where
  "follow es p = resolve (Suc (length es)) es p"

text \<open>
  \<^verbatim>\<open>file_path.is_file()\<close>, \<^verbatim>\<open>stat\<close> and \<^verbatim>\<open>open\<close> all follow links: \<open>file_of\<close> is
  the file a path leads to, if it leads to a regular file.
\<close>

definition file_of :: "directory_entries \<Rightarrow> fspath \<Rightarrow> nat option" where
  "file_of es p = (case follow es p of Some (q, Regular_file i) \<Rightarrow> Some i | _ \<Rightarrow> None)"

text \<open>
  \<^verbatim>\<open>user_path.rglob("*")\<close>: every name below the directory that \<open>user_path\<close> stands
  for, links included (a walk does not descend through a link, and no name lies below
  one); nothing when \<open>user_path\<close> does not stand for a directory.
\<close>

definition rglob :: "directory_entries \<Rightarrow> fspath \<Rightarrow> fspath list" where
  "rglob es user_path =
     (case follow es user_path of
        Some (d, Directory) \<Rightarrow> filter (under d) (map fst es)
      | _ \<Rightarrow> [])"

record monitoring_data =
  mon_user_id :: int
  mon_process_id :: int
  is_running :: bool
  memory_mb :: real
  cpu_percent :: real
  open_files :: nat
  network_connections :: nat
  timestamp :: real

record SecurityManager =
  entries :: directory_entries
  file_bytes :: "nat \<Rightarrow> 8 word list"
  user_processes :: "int \<rightharpoonup> monitoring_data"

text \<open>
  What happens to one file inside the inner \<^verbatim>\<open>try\<close>: the overwrite completes; or
  \<^verbatim>\<open>stat\<close> or \<^verbatim>\<open>open\<close> raises and the file is as it was; or the file was opened
  (\<^verbatim>\<open>'wb'\<close> truncates it) and the write raises after the given number of bytes.
  Either exception is logged and the loop goes on. The walk itself is taken not to raise.
\<close>

datatype overwrite_outcome = Completes | Raises_before_open | Raises_after_open nat

record cleanup_env =
  overwrite_result :: "fspath \<Rightarrow> overwrite_outcome"
  random_byte :: "fspath \<Rightarrow> nat \<Rightarrow> 8 word"
  rmtree_raises :: bool
  removed_before_raise :: "fspath \<Rightarrow> bool"

text \<open>\<^verbatim>\<open>secrets.token_bytes(n)\<close>, called while overwriting through the path \<open>p\<close>.\<close>

definition token_bytes :: "cleanup_env \<Rightarrow> fspath \<Rightarrow> nat \<Rightarrow> 8 word list" where
  "token_bytes env p n = map (random_byte env p) [0..<n]"

text \<open>The body of the loop for one path, on the stored bytes.\<close>

definition overwrite_file ::
  "cleanup_env \<Rightarrow> directory_entries \<Rightarrow> fspath \<Rightarrow> (nat \<Rightarrow> 8 word list) \<Rightarrow> (nat \<Rightarrow> 8 word list)" where
  "overwrite_file env es file_path stored =
     (case file_of es file_path of
        None \<Rightarrow> stored
      | Some i \<Rightarrow>
          (let file_size = length (stored i)
           in case overwrite_result env file_path of
                Completes \<Rightarrow> stored(i := token_bytes env file_path file_size)
              | Raises_before_open \<Rightarrow> stored
              | Raises_after_open k \<Rightarrow>
                  stored(i := take k (token_bytes env file_path file_size))))"

fun overwrite_all ::
  "cleanup_env \<Rightarrow> directory_entries \<Rightarrow> fspath list \<Rightarrow> (nat \<Rightarrow> 8 word list) \<Rightarrow> (nat \<Rightarrow> 8 word list)" where
  "overwrite_all env es [] stored = stored"
| "overwrite_all env es (file_path # rest) stored =
     overwrite_all env es rest (overwrite_file env es file_path stored)"

text \<open>
  \<^verbatim>\<open>shutil.rmtree(p)\<close> removes the names at and below \<open>p\<close> and follows no link. It
  raises at once when \<open>p\<close> is itself a link or not a directory; otherwise it may raise
  on the way, having removed some names below \<open>p\<close> but not \<open>p\<close>. The result says
  whether it raised.
\<close>

definition rmtree :: "cleanup_env \<Rightarrow> fspath \<Rightarrow> directory_entries \<Rightarrow> bool \<times> directory_entries" where
  "rmtree env p es =
     (case map_of es p of
        Some Directory \<Rightarrow>
          if rmtree_raises env
          then (True, filter (\<lambda>(q, nd). \<not> (under p q \<and> removed_before_raise env q)) es)
          else (False, filter (\<lambda>(q, nd). \<not> (q = p \<or> under p q)) es)
      | _ \<Rightarrow> (True, es))"

definition cleanup_user_data ::
  "int \<Rightarrow> bool \<Rightarrow> cleanup_env \<Rightarrow> SecurityManager \<Rightarrow> bool \<times> SecurityManager" where
  "cleanup_user_data uid secure_delete env s =
     (let user_path = User_root uid
      in if follow (entries s) user_path = None then (True, s)
         else (let stored = (if secure_delete
                             then overwrite_all env (entries s) (rglob (entries s) user_path)
                                    (file_bytes s)
                             else file_bytes s);
                   removal = rmtree env user_path (entries s)
               in if fst removal
                  then (False, s\<lparr>entries := snd removal, file_bytes := stored\<rparr>)
                  else (True, s\<lparr>entries := snd removal, file_bytes := stored,
                                 user_processes := (user_processes s)(uid := None)\<rparr>)))"

section \<open>Runs, invariants and scenario states used by the theorems\<close>

text \<open>Sequences of the pool's two mutating operations, applied from left to right.\<close>

datatype pool_op = Allocate cred_ref real | Release cred_ref

fun pool_step :: "pool_op \<Rightarrow> HostManager \<Rightarrow> HostManager" where
  "pool_step (Allocate a now) s = snd (allocate_credential a now s)"
| "pool_step (Release a) s = snd (release_credential a s)"

fun pool_run :: "pool_op list \<Rightarrow> HostManager \<Rightarrow> HostManager" where
  "pool_run [] s = s"
| "pool_run (x # xs) s = pool_run xs (pool_step x s)"

definition in_use_bounded :: "HostManager \<Rightarrow> cred_ref \<Rightarrow> bool" where
  "in_use_bounded s c = (0 \<le> in_use (cred_objs s c) \<and> in_use (cred_objs s c) \<le> max_users (cred_objs s c))"

text \<open>
  \<open>first_min key xs r\<close>: \<open>r\<close> occurs in \<open>xs\<close> at a position where everything before
  it has a strictly larger key and nothing after it has a smaller one.
\<close>

definition first_min :: "('a \<Rightarrow> int) \<Rightarrow> 'a list \<Rightarrow> 'a \<Rightarrow> bool" where
  "first_min key xs r = (\<exists>ys zs. xs = ys @ r # zs \<and> (\<forall>y\<in>set ys. key r < key y) \<and> (\<forall>z\<in>set zs. key r \<le> key z))"

text \<open>
  The pool of the default credentials file with its ceiling lowered to one user, an empty
  registry; the same host after tenant 1 was created and started; and a pool of four
  credentials, the second one saturated.
\<close>

definition one_credential :: APICredential where
  "one_credential = \<lparr>api_id = 12345, api_hash = ''your_api_hash_here'', app_name = ''ASCL_App_1'',
     in_use = 0, max_users = 1, created_at = 0, last_used = 0\<rparr>"

definition one_credential_host :: HostManager where
  "one_credential_host = \<lparr>cred_objs = (\<lambda>_. one_credential), credentials = [0],
     user_instances = Map.empty, user_dirs = {}, effects = []\<rparr>"

definition create_ok :: "real \<Rightarrow> create_env" where
  "create_ok t = \<lparr>now_allocated = t, config_result = Config_written, now_created = t\<rparr>"

definition running_tenant_host :: HostManager where
  "running_tenant_host =
     snd (start_user_bot 1 (Spawned 77) 15
       (snd (create_user_instance 1 ''+1000'' ''SERVICE_PROVIDED'' (create_ok 10) one_credential_host)))"

definition four_credential_host :: HostManager where
  "four_credential_host =
     \<lparr>cred_objs = (\<lambda>_. one_credential)
        (0 := one_credential\<lparr>in_use := 2, max_users := 5\<rparr>,
         1 := one_credential\<lparr>in_use := 3, max_users := 3\<rparr>,
         2 := one_credential\<lparr>in_use := 1, max_users := 5\<rparr>,
         3 := one_credential\<lparr>in_use := 1, max_users := 5\<rparr>),
      credentials = [0, 1, 2, 3], user_instances = Map.empty, user_dirs = {}, effects = []\<rparr>"

text \<open>
  A session manager in which user 7 was sent a code at time 0, and the same after the
  provider asked for the second factor.
\<close>

definition code_sent_manager :: TelegramSessionManager where
  "code_sent_manager =
     run [Start_authentication 7 ''+3000'' 12345 ''hash'' (Code_sent ''h1'' 0 0)]
       init_session_manager"

definition password_required_manager :: TelegramSessionManager where
  "password_required_manager =
     run [Start_authentication 7 ''+3000'' 12345 ''hash'' (Code_sent ''h1'' 0 0),
          Verify_code 7 ''123456'' 100 Password_needed]
       init_session_manager"

text \<open>
  The proxy is waiting for a user's code; while it is, the user's stored session is absent
  or has status \<^verbatim>\<open>code_sent\<close>. A proxy in which user 7 was sent a code.
\<close>

definition awaiting_code :: "AuthenticationProxy \<Rightarrow> int \<Rightarrow> bool" where
  "awaiting_code h uid =
     (case pending_auth h uid of None \<Rightarrow> False | Some p \<Rightarrow> auth_step p = ''code'')"

definition code_step_inv :: "AuthenticationProxy \<Rightarrow> bool" where
  "code_step_inv h = (\<forall>uid. awaiting_code h uid \<longrightarrow>
      stored_status (session_manager h) uid \<in> {None, Some ''code_sent''})"

definition complete_ok :: complete_env where
  "complete_ok = \<lparr>create_result = create_ok 200, start_result = Spawned 78, start_time = 201\<rparr>"

definition code_requested_proxy :: AuthenticationProxy where
  "code_requested_proxy =
     proxy_run [Start_phone_auth 7 ''+3000'' 12345 ''hash'' (Code_sent ''h1'' 0 0) complete_ok]
       (init_proxy one_credential_host)"

text \<open>
  A file system with the trees of users 5 and 6, in which user 5's tree holds a link to
  user 6's configuration file; an environment in which every overwrite completes and one
  in which every file refuses to be opened for writing.
\<close>

definition tenant_files :: SecurityManager where
  "tenant_files =
     \<lparr>entries =
        [(User_root 5, Directory),
         (Child (User_root 5) ''sessions'', Directory),
         (Child (User_root 5) ''.env'', Regular_file 0),
         (Child (Child (User_root 5) ''sessions'') ''telegram_session'', Regular_file 1),
         (Child (User_root 5) ''shared'', Symlink (Child (User_root 6) ''.env'')),
         (User_root 6, Directory),
         (Child (User_root 6) ''.env'', Regular_file 2),
         (Child (User_root 6) ''data'', Regular_file 3)],
      file_bytes = (\<lambda>_. [])(0 := [1, 2, 3], 1 := [4, 5], 2 := [9], 3 := [7, 7]),
      user_processes = Map.empty\<rparr>"

definition cooperative_env :: cleanup_env where
  "cooperative_env = \<lparr>overwrite_result = (\<lambda>_. Completes), random_byte = (\<lambda>_ _. 255),
     rmtree_raises = False, removed_before_raise = (\<lambda>_. False)\<rparr>"

definition read_only_env :: cleanup_env where
  "read_only_env = \<lparr>overwrite_result = (\<lambda>_. Raises_before_open), random_byte = (\<lambda>_ _. 0),
     rmtree_raises = False, removed_before_raise = (\<lambda>_. False)\<rparr>"

section \<open>Unfolding rules\<close>

lemmas host_defs = create_user_instance_def remove_user_instance_def stop_user_bot_def
  start_user_bot_def get_available_credential_def eligible_def allocate_credential_def
  release_credential_def one_credential_host_def one_credential_def create_ok_def
  returns_true_def pid_truthy_def Let_def running_tenant_host_def
  four_credential_host_def

lemmas auth_defs = start_authentication_def verify_code_def verify_password_def
  disconnect_user_def cleanup_expired_sessions_def expired_unauthenticated_def
  stored_status_def called_def failure_def init_session_manager_def
  telegram_session_path_def Let_def

lemmas proxy_defs = start_phone_auth_def handle_verification_code_def
  handle_2fa_password_def complete_authentication_def init_proxy_def
  code_requested_proxy_def complete_ok_def awaiting_code_def

lemmas sec_defs = cleanup_user_data_def rmtree_def rglob_def follow_def file_of_def
  overwrite_file_def token_bytes_def tenant_files_def cooperative_env_def
  read_only_env_def Let_def

section \<open>The credential pool\<close>

subsection \<open>The first least-used credential\<close>

lemma first_min_le: "first_min key xs r \<Longrightarrow> x \<in> set xs \<Longrightarrow> key r \<le> key x"
  by (fastforce simp: first_min_def)

lemma first_min_single: "first_min key [m] m"
  unfolding first_min_def by (rule exI[of _ "[]"], rule exI[of _ "[]"]) simp

lemma first_min_push_smaller:
  assumes "first_min key (x # xs) r" "key x < key m"
  shows "first_min key (m # x # xs) r"
proof -
  from assms(1) obtain ys zs where d: "x # xs = ys @ r # zs"
    and b: "\<forall>y\<in>set ys. key r < key y" and a: "\<forall>z\<in>set zs. key r \<le> key z"
    by (auto simp: first_min_def)
  have "key r \<le> key x" using assms(1) by (rule first_min_le) simp
  with assms(2) have "key r < key m" by simp
  with d b a show ?thesis
    unfolding first_min_def
    by (intro exI[of _ "m # ys"] exI[of _ zs]) simp
qed

lemma first_min_skip_larger:
  assumes "first_min key (m # xs) r" "\<not> key x < key m"
  shows "first_min key (m # x # xs) r"
proof -
  from assms(1) obtain ys zs where d: "m # xs = ys @ r # zs"
    and b: "\<forall>y\<in>set ys. key r < key y" and a: "\<forall>z\<in>set zs. key r \<le> key z"
    by (auto simp: first_min_def)
  show ?thesis
  proof (cases ys)
    case Nil
    with d have "r = m" "zs = xs" by simp_all
    with a assms(2) show ?thesis
      unfolding first_min_def
      by (intro exI[of _ "[]"] exI[of _ "x # xs"]) simp
  next
    case (Cons y ys')
    with d have "y = m" "xs = ys' @ r # zs" by simp_all
    moreover from b Cons \<open>y = m\<close> have "key r < key m" by simp
    ultimately show ?thesis using a b Cons assms(2)
      unfolding first_min_def
      by (intro exI[of _ "m # x # ys'"] exI[of _ zs]) simp
  qed
qed

lemma py_min_from_first: "first_min key (m # xs) (py_min_from key m xs)"
proof (induction xs arbitrary: m)
  case Nil
  show ?case by (simp add: first_min_single)
next
  case (Cons x xs)
  show ?case
  proof (cases "key x < key m")
    case True
    with Cons[of x] show ?thesis by (simp add: first_min_push_smaller)
  next
    case False
    with Cons[of m] show ?thesis by (simp add: first_min_skip_larger)
  qed
qed

lemma filter_eq_append_Cons:
  "filter P xs = ys @ r # zs \<Longrightarrow>
     \<exists>us ws. xs = us @ r # ws \<and> filter P us = ys \<and> filter P ws = zs \<and> P r"
proof (induction xs arbitrary: ys)
  case Nil
  then show ?case by simp
next
  case (Cons x xs)
  show ?case
  proof (cases "P x")
    case False
    with Cons.prems have "filter P xs = ys @ r # zs" by simp
    from Cons.IH[OF this] obtain us ws where
      "xs = us @ r # ws" "filter P us = ys" "filter P ws = zs" "P r" by blast
    with False have "x # xs = (x # us) @ r # ws \<and> filter P (x # us) = ys
        \<and> filter P ws = zs \<and> P r" by simp
    then show ?thesis by blast
  next
    case True
    show ?thesis
    proof (cases ys)
      case Nil
      with True Cons.prems have "x # xs = [] @ r # xs \<and> filter P [] = ys
        \<and> filter P xs = zs \<and> P r" by simp
      then show ?thesis by blast
    next
      case (Cons y ys')
      with True Cons.prems have y: "y = x" and "filter P xs = ys' @ r # zs" by simp_all
      from Cons.IH[OF this(2)] obtain us ws where
        "xs = us @ r # ws" "filter P us = ys'" "filter P ws = zs" "P r" by blast
      with True Cons y have "x # xs = (x # us) @ r # ws \<and> filter P (x # us) = ys
        \<and> filter P ws = zs \<and> P r" by simp
      then show ?thesis by blast
    qed
  qed
qed

lemma filter_first_min:
  assumes "first_min key (filter P xs) r"
  shows "\<exists>before after. xs = before @ r # after \<and> P r
           \<and> (\<forall>b\<in>set before. P b \<longrightarrow> key r < key b)
           \<and> (\<forall>b\<in>set after. P b \<longrightarrow> key r \<le> key b)"
proof -
  from assms obtain ys zs where d: "filter P xs = ys @ r # zs"
    and b: "\<forall>y\<in>set ys. key r < key y" and a: "\<forall>z\<in>set zs. key r \<le> key z"
    by (auto simp: first_min_def)
  from filter_eq_append_Cons[OF d] obtain us ws where
    x: "xs = us @ r # ws" and u: "filter P us = ys" and w: "filter P ws = zs" and r: "P r"
    by blast
  have "\<forall>b\<in>set us. P b \<longrightarrow> key r < key b" using b u by auto
  moreover have "\<forall>b\<in>set ws. P b \<longrightarrow> key r \<le> key b" using a w by auto
  ultimately show ?thesis using x r by blast
qed

text \<open>
  Claim C5. \<^verbatim>\<open>get_available_credential\<close> returns none exactly when no credential of
  the pool has \<open>in_use < max_users\<close>. Otherwise it returns a credential of the pool
  that is eligible, whose \<open>in_use\<close> is strictly below that of every eligible credential
  earlier in the pool's list and at most that of every eligible credential later in it:
  the first least-used eligible credential in pool order.
\<close>

theorem get_available_credential_least_used:
  "(get_available_credential s = None \<longleftrightarrow> (\<forall>a\<in>set (credentials s). \<not> eligible s a)) \<and>
   (\<forall>a. get_available_credential s = Some a \<longrightarrow>
      (\<exists>before after. credentials s = before @ a # after \<and> eligible s a
         \<and> (\<forall>b\<in>set before. eligible s b \<longrightarrow> in_use (cred_objs s a) < in_use (cred_objs s b))
         \<and> (\<forall>b\<in>set after. eligible s b \<longrightarrow> in_use (cred_objs s a) \<le> in_use (cred_objs s b))))"
proof (cases "filter (eligible s) (credentials s)")
  case Nil
  then have "get_available_credential s = None"
    by (simp add: get_available_credential_def)
  moreover from Nil have "\<forall>a\<in>set (credentials s). \<not> eligible s a"
    by (simp add: filter_empty_conv)
  ultimately show ?thesis by simp
next
  case (Cons x xs)
  let ?key = "\<lambda>x. in_use (cred_objs s x)"
  have g: "get_available_credential s = Some (py_min_from ?key x xs)"
    using Cons by (simp add: get_available_credential_def)
  have "first_min ?key (filter (eligible s) (credentials s)) (py_min_from ?key x xs)"
    unfolding Cons by (rule py_min_from_first)
  from filter_first_min[OF this] have
    "\<exists>before after. credentials s = before @ py_min_from ?key x xs # after
        \<and> eligible s (py_min_from ?key x xs)
        \<and> (\<forall>b\<in>set before. eligible s b \<longrightarrow> ?key (py_min_from ?key x xs) < ?key b)
        \<and> (\<forall>b\<in>set after. eligible s b \<longrightarrow> ?key (py_min_from ?key x xs) \<le> ?key b)" .
  moreover have "\<exists>a\<in>set (credentials s). eligible s a"
  proof -
    have "x \<in> set (filter (eligible s) (credentials s))" using Cons by simp
    then show ?thesis by auto
  qed
  ultimately show ?thesis using g by auto
qed


text \<open>
  In the pool of four, credential 1 is saturated and credentials 2 and 3 tie on the
  smallest count; the earlier one, 2, is returned.
\<close>

theorem get_available_credential_least_used_witness:
  "get_available_credential four_credential_host = Some 2
   \<and> get_available_credential four_credential_host \<noteq> None
   \<and> \<not> (\<forall>a\<in>set (credentials four_credential_host). \<not> eligible four_credential_host a)
   \<and> (\<exists>before after. credentials four_credential_host = before @ 2 # after
         \<and> eligible four_credential_host 2
         \<and> (\<forall>b\<in>set before. eligible four_credential_host b \<longrightarrow>
               in_use (cred_objs four_credential_host 2) < in_use (cred_objs four_credential_host b))
         \<and> (\<forall>b\<in>set after. eligible four_credential_host b \<longrightarrow>
               in_use (cred_objs four_credential_host 2) \<le> in_use (cred_objs four_credential_host b)))"
proof -
  have g: "get_available_credential four_credential_host = Some 2"
    by (simp add: get_available_credential_def eligible_def four_credential_host_def
        one_credential_def)
  from get_available_credential_least_used[of four_credential_host] g show ?thesis
    by simp
qed

subsection \<open>The usage counter stays within its bounds\<close>

lemma pool_step_bounded: "in_use_bounded s c \<Longrightarrow> in_use_bounded (pool_step x s) c"
  by (cases x) (auto simp: in_use_bounded_def allocate_credential_def release_credential_def)

lemma pool_run_bounded: "in_use_bounded s c \<Longrightarrow> in_use_bounded (pool_run xs s) c"
  by (induction xs arbitrary: s) (simp_all add: pool_step_bounded)

lemma start_cred_objs: "cred_objs (snd (start_user_bot uid outcome now s)) = cred_objs s"
  by (simp add: start_user_bot_def split: option.splits spawn_outcome.splits)

lemma stop_cred_objs: "cred_objs (snd (stop_user_bot uid k s)) = cred_objs s"
  by (simp add: stop_user_bot_def Let_def split: option.splits)

lemma create_cred_objs:
  "cred_objs (snd (create_user_instance uid ph key env s)) = cred_objs s \<or>
   (\<exists>a. cred_objs (snd (create_user_instance uid ph key env s))
        = cred_objs (snd (allocate_credential a (now_allocated env) s)))"
proof (cases "uid \<in> dom (user_instances s)")
  case True
  then show ?thesis by (simp add: create_user_instance_def)
next
  case False
  show ?thesis
  proof (cases "get_available_credential s")
    case None
    with False show ?thesis by (simp add: create_user_instance_def)
  next
    case (Some a)
    obtain b s1 where al: "allocate_credential a (now_allocated env) s = (b, s1)"
      by (cases "allocate_credential a (now_allocated env) s")
    have "cred_objs (snd (create_user_instance uid ph key env s)) = cred_objs s1"
      using False Some al
      by (cases b; cases "config_result env") (simp_all add: create_user_instance_def Let_def)
    with al show ?thesis by (metis snd_conv)
  qed
qed

lemma remove_cred_objs:
  "cred_objs (snd (remove_user_instance uid k r s)) = cred_objs s \<or>
   (\<exists>a. cred_objs (snd (remove_user_instance uid k r s))
        = cred_objs (snd (release_credential a s)))"
proof -
  let ?s1 = "snd (stop_user_bot uid k s)"
  have s1: "cred_objs ?s1 = cred_objs s" by (rule stop_cred_objs)
  show ?thesis
  proof (cases "user_instances ?s1 uid")
    case None
    then have "cred_objs (snd (remove_user_instance uid k r s)) = cred_objs ?s1"
      by (simp add: remove_user_instance_def Let_def)
    with s1 show ?thesis by simp
  next
    case (Some inst)
    then have "cred_objs (snd (remove_user_instance uid k r s))
        = cred_objs (snd (release_credential (api_credential inst) ?s1))"
      by (simp add: remove_user_instance_def Let_def)
    also have "\<dots> = cred_objs (snd (release_credential (api_credential inst) s))"
      using s1 by (simp add: release_credential_def)
    finally show ?thesis by blast
  qed
qed

text \<open>
  Claim C1. A credential whose counter satisfies \<open>0 \<le> in_use \<le> max_users\<close> still
  satisfies it after any sequence of \<^verbatim>\<open>allocate_credential\<close> and
  \<^verbatim>\<open>release_credential\<close> calls (on this or any other credential). The counters are
  changed by nothing else: starting and stopping a bot leave every credential object as
  it was, creating an instance leaves them as they were or as one
  \<^verbatim>\<open>allocate_credential\<close> call leaves them, and removing an instance leaves them as
  they were or as one \<^verbatim>\<open>release_credential\<close> call leaves them.
\<close>

theorem in_use_invariant:
  assumes "in_use_bounded s c"
  shows "in_use_bounded (pool_run ops s) c
    \<and> cred_objs (snd (start_user_bot uid outcome now s)) = cred_objs s
    \<and> cred_objs (snd (stop_user_bot uid k s)) = cred_objs s
    \<and> (cred_objs (snd (create_user_instance uid ph key env s)) = cred_objs s \<or>
       (\<exists>a. cred_objs (snd (create_user_instance uid ph key env s))
            = cred_objs (snd (allocate_credential a (now_allocated env) s))))
    \<and> (cred_objs (snd (remove_user_instance uid k r s)) = cred_objs s \<or>
       (\<exists>a. cred_objs (snd (remove_user_instance uid k r s))
            = cred_objs (snd (release_credential a s))))"
  using assms pool_run_bounded start_cred_objs stop_cred_objs create_cred_objs remove_cred_objs
  by simp

theorem in_use_invariant_witness:
  "in_use_bounded one_credential_host 0
   \<and> in_use_bounded
        (pool_run [Allocate 0 1, Allocate 0 2, Release 0, Release 0, Release 0]
           one_credential_host) 0
   \<and> cred_objs (snd (stop_user_bot 1 Signal_sent one_credential_host))
        = cred_objs one_credential_host"
proof -
  have b: "in_use_bounded one_credential_host 0"
    by (simp add: in_use_bounded_def one_credential_host_def one_credential_def)
  from in_use_invariant[where s = one_credential_host and c = 0
      and ops = "[Allocate 0 1, Allocate 0 2, Release 0, Release 0, Release 0]"
      and uid = 1 and outcome = "Spawned 77" and now = 15 and k = Signal_sent
      and ph = "''+1000''" and key = "''SERVICE_PROVIDED''" and env = "create_ok 10"
      and r = False, OF b] b
  show ?thesis by simp
qed

section \<open>The host manager\<close>

text \<open>
  Claim C4. Creating an instance for a user id that already has one returns False from
  the "already has an instance" branch, and the whole state is as before: the existing
  record, every credential's counter, the pool, the directories and the effects.
\<close>

theorem create_duplicate:
  "user_instances s uid \<noteq> None \<Longrightarrow>
     create_user_instance uid ph key env s = (Inl Already_has_instance, s)
     \<and> \<not> returns_true (fst (create_user_instance uid ph key env s))"
  by (auto simp: create_user_instance_def returns_true_def)

theorem create_duplicate_witness:
  "user_instances running_tenant_host 1 \<noteq> None
   \<and> create_user_instance 1 ''+1000'' ''SERVICE_PROVIDED'' (create_ok 20) running_tenant_host
       = (Inl Already_has_instance, running_tenant_host)"
proof -
  have i: "user_instances running_tenant_host 1 \<noteq> None" by (simp add: host_defs)
  from create_duplicate[OF i, of "''+1000''" "''SERVICE_PROVIDED''" "create_ok 20"] i
  show ?thesis by simp
qed

text \<open>
  Claim C10. For a user id with no entry in the registry, \<^verbatim>\<open>stop_user_bot\<close> returns
  True and \<^verbatim>\<open>start_user_bot\<close> returns False, and each leaves the whole state as it
  was: the registry, the credentials and the effects, so no process is signalled or
  spawned.
\<close>

theorem unknown_tenant:
  "user_instances s uid = None \<Longrightarrow>
     stop_user_bot uid k s = (Inr (), s) \<and> returns_true (fst (stop_user_bot uid k s))
     \<and> start_user_bot uid outcome now s = (Inl No_instance_found, s)
     \<and> \<not> returns_true (fst (start_user_bot uid outcome now s))"
  by (simp add: stop_user_bot_def start_user_bot_def returns_true_def)

theorem unknown_tenant_witness:
  "user_instances running_tenant_host 9 = None
   \<and> stop_user_bot 9 Signal_sent running_tenant_host = (Inr (), running_tenant_host)
   \<and> start_user_bot 9 (Spawned 78) 30 running_tenant_host
       = (Inl No_instance_found, running_tenant_host)"
proof -
  have i: "user_instances running_tenant_host 9 = None" by (simp add: host_defs)
  from unknown_tenant[OF i, of Signal_sent "Spawned 78" 30] i show ?thesis by simp
qed

text \<open>
  Claim C6. One credential with \<open>max_users = 1\<close> and \<open>in_use = 0\<close>, an empty registry,
  and a file system that raises nothing. Creating tenant 1 returns True and leaves
  \<open>in_use = 1\<close>; creating tenant 2 then returns False from the "no available API
  credentials" branch and the state is unchanged; removing tenant 1 returns True and
  leaves \<open>in_use = 0\<close>; creating tenant 2 now returns True and leaves \<open>in_use = 1\<close>.
\<close>

theorem single_credential_scenario:
  "(let (r1, s1) = create_user_instance 1 ''+1000'' ''SERVICE_PROVIDED'' (create_ok 10) one_credential_host;
        (r2, s2) = create_user_instance 2 ''+2000'' ''SERVICE_PROVIDED'' (create_ok 20) s1;
        (r3, s3) = remove_user_instance 1 Signal_sent False s2;
        (r4, s4) = create_user_instance 2 ''+2000'' ''SERVICE_PROVIDED'' (create_ok 40) s3
    in r1 = Inr () \<and> in_use (cred_objs s1 0) = 1
     \<and> r2 = Inl No_available_credentials \<and> s2 = s1
     \<and> r3 = Inr () \<and> in_use (cred_objs s3 0) = 0
     \<and> r4 = Inr () \<and> in_use (cred_objs s4 0) = 1)"
  by (simp add: host_defs)

subsection \<open>Removing an instance\<close>

lemma stop_keeps_instance:
  "user_instances s uid = Some inst \<Longrightarrow>
     \<exists>inst'. user_instances (snd (stop_user_bot uid k s)) uid = Some inst'
       \<and> api_credential inst' = api_credential inst"
  by (simp add: stop_user_bot_def Let_def)

lemma stop_frame:
  "cred_objs (snd (stop_user_bot uid k s)) = cred_objs s"
  "user_dirs (snd (stop_user_bot uid k s)) = user_dirs s"
  "(user_instances (snd (stop_user_bot uid k s)))(uid := None) = (user_instances s)(uid := None)"
  by (simp_all add: stop_user_bot_def Let_def split: option.splits)

lemma release_frame:
  "user_dirs (snd (release_credential a s)) = user_dirs s"
  "user_instances (snd (release_credential a s)) = user_instances s"
  "effects (snd (release_credential a s)) =
     effects s @ (if 0 < in_use (cred_objs s a) then [Save_credentials] else [])"
  "cred_objs (snd (release_credential a s)) =
     (if 0 < in_use (cred_objs s a)
      then (cred_objs s)(a := (cred_objs s a)\<lparr>in_use := in_use (cred_objs s a) - 1\<rparr>)
      else cred_objs s)"
  by (simp_all add: release_credential_def)

text \<open>
  Claim C2, as the code has it. For a registered tenant, \<^verbatim>\<open>remove_user_instance\<close>
  performs, in this order: the effects of \<^verbatim>\<open>stop_user_bot\<close>; the release of the
  credential object the record references (its counter goes down by one when positive,
  and the credentials file is saved); the removal of the registry entry (and the save of
  the registry); and last the removal of the user's directory, when it exists. It returns
  False only when that last removal raises, and whatever it returns the referenced
  credential has been released and the registry entry is gone.
\<close>

theorem remove_user_instance_order:
  assumes "user_instances s uid = Some inst"
  shows "effects (snd (remove_user_instance uid k rr s)) =
           effects (snd (stop_user_bot uid k s))
           @ (if 0 < in_use (cred_objs s (api_credential inst)) then [Save_credentials] else [])
           @ [Save_user_instances]
           @ (if uid \<in> user_dirs s then [Rmtree uid] else [])
    \<and> cred_objs (snd (remove_user_instance uid k rr s)) =
         (if 0 < in_use (cred_objs s (api_credential inst))
          then (cred_objs s)(api_credential inst :=
                 (cred_objs s (api_credential inst))
                   \<lparr>in_use := in_use (cred_objs s (api_credential inst)) - 1\<rparr>)
          else cred_objs s)
    \<and> user_instances (snd (remove_user_instance uid k rr s)) = (user_instances s)(uid := None)
    \<and> user_dirs (snd (remove_user_instance uid k rr s)) =
         (if rr then user_dirs s else user_dirs s - {uid})
    \<and> fst (remove_user_instance uid k rr s) =
         (if uid \<in> user_dirs s \<and> rr then Inl Raised else Inr ())"
proof -
  let ?s1 = "snd (stop_user_bot uid k s)"
  from stop_keeps_instance[OF assms] obtain inst' where
    i: "user_instances ?s1 uid = Some inst'" and a: "api_credential inst' = api_credential inst"
    by blast
  let ?s' = "snd (release_credential (api_credential inst) ?s1)"
  let ?s2 = "?s'\<lparr>user_instances := (user_instances ?s')(uid := None),
                 effects := effects ?s' @ [Save_user_instances]\<rparr>"
  have r: "remove_user_instance uid k rr s =
      (if uid \<in> user_dirs ?s2
       then (if rr then (Inl Raised, ?s2\<lparr>effects := effects ?s2 @ [Rmtree uid]\<rparr>)
             else (Inr (), ?s2\<lparr>user_dirs := user_dirs ?s2 - {uid},
                               effects := effects ?s2 @ [Rmtree uid]\<rparr>))
       else (Inr (), ?s2))"
    using i a by (simp add: remove_user_instance_def Let_def)
  have d: "user_dirs ?s2 = user_dirs s" by (simp add: release_frame stop_frame)
  have e: "effects ?s2 = effects ?s1
      @ (if 0 < in_use (cred_objs s (api_credential inst)) then [Save_credentials] else [])
      @ [Save_user_instances]" by (simp add: release_frame stop_frame)
  have c: "cred_objs ?s2 = (if 0 < in_use (cred_objs s (api_credential inst))
          then (cred_objs s)(api_credential inst :=
                 (cred_objs s (api_credential inst))
                   \<lparr>in_use := in_use (cred_objs s (api_credential inst)) - 1\<rparr>)
          else cred_objs s)" by (simp add: release_frame stop_frame)
  have u: "user_instances ?s2 = (user_instances s)(uid := None)"
    by (simp add: release_frame stop_frame)
  show ?thesis
    unfolding r using d e c u by auto
qed

text \<open>
  Tenant 1 is running as process 77: the signal, the two saves and the removal of the
  directory follow in that order.
\<close>

theorem remove_user_instance_order_witness:
  "user_instances running_tenant_host 1 \<noteq> None
   \<and> effects (snd (remove_user_instance 1 Signal_sent False running_tenant_host)) =
       effects running_tenant_host
         @ [Kill 77, Save_user_instances, Save_credentials, Save_user_instances, Rmtree 1]
   \<and> in_use (cred_objs (snd (remove_user_instance 1 Signal_sent False running_tenant_host)) 0) = 0
   \<and> user_instances (snd (remove_user_instance 1 Signal_sent False running_tenant_host)) 1 = None
   \<and> 1 \<notin> user_dirs (snd (remove_user_instance 1 Signal_sent False running_tenant_host))
   \<and> fst (remove_user_instance 1 Signal_sent False running_tenant_host) = Inr ()"
proof -
  have i: "user_instances running_tenant_host 1 =
      Some \<lparr>user_id = 1, phone = ''+1000'', api_credential = 0, process_id = Some 77,
            status = ''active'', inst_created_at = 10, last_activity = 15,
            session_path = Child (User_root 1) ''sessions'',
            config_path = Child (User_root 1) ''.env''\<rparr>"
    by (simp add: host_defs)
  have st: "effects (snd (stop_user_bot 1 Signal_sent running_tenant_host)) =
      effects running_tenant_host @ [Kill 77, Save_user_instances]"
    by (simp add: host_defs)
  have c: "in_use (cred_objs running_tenant_host 0) = 1" "1 \<in> user_dirs running_tenant_host"
    by (simp_all add: host_defs)
  show ?thesis
    using remove_user_instance_order[OF i, of Signal_sent False] st c i by simp
qed

text \<open>
  The order stated in the specification (environment first, registry entry last) is not
  the order of the code: when removing the directory of tenant 1 raises, the call returns
  False, the registry entry is already gone and the directory is still there; and when
  nothing raises, the registry is saved without the entry before the directory is removed.
\<close>

theorem remove_user_instance_counterexample:
  "fst (remove_user_instance 1 Signal_sent True running_tenant_host) = Inl Raised
   \<and> user_instances (snd (remove_user_instance 1 Signal_sent True running_tenant_host)) 1 = None
   \<and> 1 \<in> user_dirs (snd (remove_user_instance 1 Signal_sent True running_tenant_host))
   \<and> effects (snd (remove_user_instance 1 Signal_sent False running_tenant_host)) =
       [Save_credentials, Write_config 1, Save_user_instances,
        Copy_bot_files 1, Spawn 1 77, Save_user_instances,
        Kill 77, Save_user_instances, Save_credentials, Save_user_instances, Rmtree 1]"
  by (simp add: host_defs)


text \<open>
  The release acts on the object the record references. When that object is not one of
  the pool's (\<^verbatim>\<open>load_user_instances\<close> builds a new \<^verbatim>\<open>APICredential\<close> for every
  record it reads back), removal leaves every credential of the pool as it was.
\<close>

lemma remove_user_instance_outside_pool:
  assumes "user_instances s uid = Some inst"
    and "api_credential inst \<notin> set (credentials s)"
    and "a \<in> set (credentials s)"
  shows "cred_objs (snd (remove_user_instance uid k rr s)) a = cred_objs s a"
proof -
  let ?s1 = "snd (stop_user_bot uid k s)"
  from stop_keeps_instance[OF assms(1)] obtain inst' where
    "user_instances ?s1 uid = Some inst'" "api_credential inst' = api_credential inst"
    by blast
  then have "cred_objs (snd (remove_user_instance uid k rr s))
      = cred_objs (snd (release_credential (api_credential inst) ?s1))"
    by (simp add: remove_user_instance_def Let_def)
  moreover have "a \<noteq> api_credential inst" using assms(2,3) by auto
  ultimately show ?thesis by (simp add: release_frame stop_frame)
qed

section \<open>Authentication sessions\<close>

subsection \<open>What each operation does to a stored status\<close>

lemma status_start:
  "stored_status (snd (start_authentication uid ph aid ah outcome s)) u =
     (if u = uid \<and> (\<exists>h t1 t2. outcome = Code_sent h t1 t2) then Some ''code_sent''
      else stored_status s u)"
  by (cases outcome) (simp_all add: auth_defs)

lemma status_verify_code:
  "stored_status (snd (verify_code uid code now outcome s)) u =
     (if u \<noteq> uid \<or> active_sessions s uid = None then stored_status s u
      else if now > expires_at (the (active_sessions s uid)) then None
      else if authenticated_clients s uid = None then stored_status s u
      else if outcome = Signed_in then Some ''authenticated''
      else if outcome = Password_needed then Some ''password_required''
      else stored_status s u)"
  by (cases outcome) (auto simp: auth_defs split: option.splits)

lemma status_verify_password:
  "stored_status (snd (verify_password uid pw outcome s)) u = stored_status s u
   \<or> stored_status (snd (verify_password uid pw outcome s)) u = Some ''authenticated''"
  by (cases outcome) (auto simp: auth_defs split: option.splits)

lemma status_disconnect:
  "stored_status (snd (disconnect_user uid raises s)) u = stored_status s u
   \<or> stored_status (snd (disconnect_user uid raises s)) u = None"
  by (auto simp: auth_defs split: option.splits)

lemma status_cleanup:
  "stored_status (cleanup_expired_sessions now raises s) u = stored_status s u
   \<or> stored_status (cleanup_expired_sessions now raises s) u = None"
  using status_disconnect[of u "raises u" s u]
  by (simp add: cleanup_expired_sessions_def stored_status_def)

lemma step_status:
  "stored_status (step op s) u = stored_status s u
   \<or> stored_status (step op s) u = None
   \<or> stored_status (step op s) u = Some ''authenticated''
   \<or> stored_status (step op s) u = Some ''code_sent''
   \<or> (stored_status (step op s) u = Some ''password_required''
        \<and> (\<exists>code now auth_session. op = Verify_code u code now Password_needed
              \<and> active_sessions s u = Some auth_session
              \<and> \<not> now > expires_at auth_session))"
proof (cases op)
  case (Start_authentication uid ph aid ah outcome)
  then show ?thesis by (simp add: status_start)
next
  case (Verify_code uid code now outcome)
  then show ?thesis by (auto simp: status_verify_code)
next
  case (Verify_password uid pw outcome)
  with status_verify_password[of uid pw outcome s u] show ?thesis by auto
next
  case (Disconnect_user uid raises)
  with status_disconnect[of uid raises s u] show ?thesis by auto
next
  case (Cleanup_expired_sessions now raises)
  with status_cleanup[of now raises s u] show ?thesis by auto
qed

subsection \<open>The proxy asks for a code only on a fresh session\<close>

lemma complete_authentication_frame:
  "session_manager (complete_authentication uid env h) = session_manager h"
  "pending_auth (complete_authentication uid env h) = (pending_auth h)(uid := None)"
  by (simp_all add: complete_authentication_def Let_def)

lemma start_authentication_result:
  "success (fst (start_authentication uid ph aid ah outcome s))
     \<and> result_status (fst (start_authentication uid ph aid ah outcome s)) = ''code_sent''
   \<longleftrightarrow> (\<exists>h t1 t2. outcome = Code_sent h t1 t2)"
  by (cases outcome) (simp_all add: start_authentication_def failure_def Let_def)

lemma verify_code_result:
  "result_status (fst (verify_code uid code now outcome s)) = ''password_required''
     \<longleftrightarrow> stored_status (snd (verify_code uid code now outcome s)) uid = Some ''password_required''
         \<and> (\<exists>a. active_sessions s uid = Some a \<and> \<not> now > expires_at a)
         \<and> authenticated_clients s uid \<noteq> None \<and> outcome = Password_needed"
  "success (fst (verify_code uid code now outcome s))
     \<longrightarrow> result_status (fst (verify_code uid code now outcome s)) = ''authenticated''"
  "\<not> (success (fst (verify_code uid code now outcome s))
       \<and> result_status (fst (verify_code uid code now outcome s)) = ''password_required'')"
  by (cases outcome; auto simp: auth_defs split: option.splits)+


lemma verify_code_failure_status:
  assumes "\<not> success (fst (verify_code uid code now outcome s))"
    and "result_status (fst (verify_code uid code now outcome s)) \<noteq> ''password_required''"
  shows "stored_status (snd (verify_code uid code now outcome s)) uid
           \<in> {None, stored_status s uid}"
  using assms by (cases outcome; auto simp: auth_defs split: option.splits if_splits)

lemma start_phone_auth_frame:
  "session_manager (start_phone_auth uid ph aid ah outcome env h)
     = snd (start_authentication uid ph aid ah outcome (session_manager h))"
  "pending_auth (start_phone_auth uid ph aid ah outcome env h) =
     (case outcome of
        Code_sent c t1 t2 \<Rightarrow> (pending_auth h)
          (uid \<mapsto> \<lparr>pending_phone = ph, pending_api_id = aid, pending_api_hash = ah,
                    auth_step = ''code''\<rparr>)
      | Already_authorized \<Rightarrow> (pending_auth h)(uid := None)
      | _ \<Rightarrow> pending_auth h)"
  by (cases outcome;
      simp add: start_phone_auth_def start_authentication_def failure_def Let_def
        complete_authentication_frame)+

lemma handle_verification_code_frame:
  assumes "awaiting_code h uid"
  shows "session_manager (handle_verification_code uid code now outcome env h)
     = snd (verify_code uid code now outcome (session_manager h))"
    and "awaiting_code (handle_verification_code uid code now outcome env h) u \<Longrightarrow>
           awaiting_code h u \<and>
           stored_status (snd (verify_code uid code now outcome (session_manager h))) u
             \<in> {None, stored_status (session_manager h) u}"
proof -
  from assms obtain p where p: "pending_auth h uid = Some p" "auth_step p = ''code''"
    by (auto simp: awaiting_code_def split: option.splits)
  show "session_manager (handle_verification_code uid code now outcome env h)
     = snd (verify_code uid code now outcome (session_manager h))"
    using p by (simp add: handle_verification_code_def Let_def complete_authentication_frame)
  assume a: "awaiting_code (handle_verification_code uid code now outcome env h) u"
  show "awaiting_code h u \<and>
           stored_status (snd (verify_code uid code now outcome (session_manager h))) u
             \<in> {None, stored_status (session_manager h) u}"
  proof (cases "u = uid")
    case False
    with a p have "awaiting_code h u"
      by (simp add: handle_verification_code_def Let_def complete_authentication_frame
          awaiting_code_def split: if_splits)
    with False show ?thesis by (simp add: status_verify_code)
  next
    case True
    let ?r = "fst (verify_code uid code now outcome (session_manager h))"
    from a p True verify_code_result(2,3)[of uid code now outcome "session_manager h"]
    have r: "\<not> success ?r" "result_status ?r \<noteq> ''password_required''"
      by (auto simp: handle_verification_code_def Let_def complete_authentication_frame
          awaiting_code_def split: if_splits)
    from verify_code_failure_status[OF r] have
      "stored_status (snd (verify_code uid code now outcome (session_manager h))) uid
         \<in> {None, stored_status (session_manager h) uid}" .
    with True assms show ?thesis by simp
  qed
qed

lemma handle_verification_code_idle:
  "\<not> awaiting_code h uid \<Longrightarrow> handle_verification_code uid code now outcome env h = h"
  by (simp add: handle_verification_code_def awaiting_code_def split: option.splits)

lemma handle_2fa_password_frame:
  "session_manager (handle_2fa_password uid pw outcome env h) = session_manager h
   \<or> session_manager (handle_2fa_password uid pw outcome env h)
       = snd (verify_password uid pw outcome (session_manager h))"
  "awaiting_code (handle_2fa_password uid pw outcome env h) u \<Longrightarrow> awaiting_code h u"
  by (auto simp: handle_2fa_password_def Let_def complete_authentication_frame
      awaiting_code_def split: option.splits if_splits)

lemma verify_password_keeps_code_sent:
  "stored_status s u \<in> {None, Some ''code_sent''} \<Longrightarrow>
     stored_status (snd (verify_password uid pw outcome s)) u \<in> {None, Some ''code_sent''}"
  by (cases outcome) (auto simp: auth_defs split: option.splits)

lemma proxy_step_inv:
  assumes "code_step_inv h"
  shows "code_step_inv (proxy_step op h)"
  unfolding code_step_inv_def
proof (intro allI impI)
  fix u
  assume a: "awaiting_code (proxy_step op h) u"
  have inv: "awaiting_code h u \<Longrightarrow> stored_status (session_manager h) u \<in> {None, Some ''code_sent''}"
    using assms by (simp add: code_step_inv_def)
  show "stored_status (session_manager (proxy_step op h)) u \<in> {None, Some ''code_sent''}"
  proof (cases op)
    case (Start_phone_auth uid ph aid ah outcome env)
    show ?thesis
    proof (cases "u = uid")
      case True
      with a Start_phone_auth
      have "awaiting_code h u \<or> (\<exists>c t1 t2. outcome = Code_sent c t1 t2)"
        by (cases outcome) (auto simp: start_phone_auth_frame awaiting_code_def)
      with inv True Start_phone_auth show ?thesis
        by (auto simp: start_phone_auth_frame status_start)
    next
      case False
      with a Start_phone_auth have "awaiting_code h u"
        by (cases outcome) (auto simp: start_phone_auth_frame awaiting_code_def)
      with False Start_phone_auth inv show ?thesis
        by (simp add: start_phone_auth_frame status_start)
    qed
  next
    case (Handle_verification_code uid code now outcome env)
    show ?thesis
    proof (cases "awaiting_code h uid")
      case False
      with a Handle_verification_code inv show ?thesis
        by (simp add: handle_verification_code_idle)
    next
      case True
      from handle_verification_code_frame[OF True] a Handle_verification_code inv
      show ?thesis by fastforce
    qed
  next
    case (Handle_2fa_password uid pw outcome env)
    with a have aw: "awaiting_code h u" by (simp add: handle_2fa_password_frame)
    from handle_2fa_password_frame(1)[of uid pw outcome env h] inv[OF aw]
      verify_password_keeps_code_sent[of "session_manager h" u uid pw outcome]
    show ?thesis using Handle_2fa_password by auto
  next
    case (Clear_pending_auth uid)
    with a inv show ?thesis
      by (auto simp: clear_pending_auth_def awaiting_code_def split: if_splits option.splits)
  next
    case (Sweep_disconnect uid raises)
    with a have "awaiting_code h u" by (simp add: awaiting_code_def)
    with inv status_disconnect[of uid raises "session_manager h" u] Sweep_disconnect
    show ?thesis by auto
  next
    case (Sweep_expired now raises)
    with a have "awaiting_code h u" by (simp add: awaiting_code_def)
    with inv status_cleanup[of now raises "session_manager h" u] Sweep_expired
    show ?thesis by auto
  qed
qed

lemma proxy_run_inv: "code_step_inv h \<Longrightarrow> code_step_inv (proxy_run ops h)"
  by (induction ops arbitrary: h) (simp_all add: proxy_step_inv)

lemma init_proxy_inv: "code_step_inv (init_proxy hm)"
  by (simp add: code_step_inv_def awaiting_code_def init_proxy_def)

lemma proxy_step_sessions:
  "session_manager (proxy_step op h) = session_manager h
   \<or> (\<exists>aop. session_manager (proxy_step op h) = step aop (session_manager h)
        \<and> (\<forall>uid code now outcome. aop = Verify_code uid code now outcome \<longrightarrow>
              awaiting_code h uid
              \<and> (\<exists>env. op = Handle_verification_code uid code now outcome env)))"
proof (cases op)
  case (Start_phone_auth uid ph aid ah outcome env)
  then have "session_manager (proxy_step op h)
      = step (Start_authentication uid ph aid ah outcome) (session_manager h)"
    by (simp add: start_phone_auth_frame)
  then show ?thesis by blast
next
  case (Handle_verification_code uid code now outcome env)
  show ?thesis
  proof (cases "awaiting_code h uid")
    case False
    with Handle_verification_code show ?thesis by (simp add: handle_verification_code_idle)
  next
    case True
    with Handle_verification_code have "session_manager (proxy_step op h)
      = step (Verify_code uid code now outcome) (session_manager h)"
      by (simp add: handle_verification_code_frame)
    with True Handle_verification_code show ?thesis by blast
  qed
next
  case (Handle_2fa_password uid pw outcome env)
  with handle_2fa_password_frame(1)[of uid pw outcome env h]
  have "session_manager (proxy_step op h) = session_manager h
    \<or> session_manager (proxy_step op h) = step (Verify_password uid pw outcome) (session_manager h)"
    by simp
  then show ?thesis by blast
next
  case (Clear_pending_auth uid)
  then show ?thesis by (simp add: clear_pending_auth_def)
next
  case (Sweep_disconnect uid raises)
  then have "session_manager (proxy_step op h)
      = step (Disconnect_user uid raises) (session_manager h)" by simp
  then show ?thesis by blast
next
  case (Sweep_expired now raises)
  then have "session_manager (proxy_step op h)
      = step (Cleanup_expired_sessions now raises) (session_manager h)" by simp
  then show ?thesis by blast
qed

text \<open>
  Claim C7. In every state the authentication proxy reaches from its initial state, by any
  sequence of its handlers and of the session manager's sweeps, a step that leaves a
  user's stored status at \<^verbatim>\<open>password_required\<close> where it was not before is
  \<^verbatim>\<open>handle_verification_code\<close> for that user; what it does to the session manager is
  the \<^verbatim>\<open>verify_code\<close> call that the provider answers with
  \<^verbatim>\<open>SessionPasswordNeededError\<close>, and the session had status \<^verbatim>\<open>code_sent\<close> before.
  The status is therefore never entered by \<^verbatim>\<open>start_authentication\<close> and never from
  \<^verbatim>\<open>pending\<close>. (\<^verbatim>\<open>verify_code\<close> itself does not look at the status; the proxy calls
  it only while it waits for the code.)
\<close>

theorem password_required_only_from_code_sent:
  assumes "h = proxy_run ops (init_proxy hm)"
    and "stored_status (session_manager (proxy_step op h)) uid = Some ''password_required''"
    and "stored_status (session_manager h) uid \<noteq> Some ''password_required''"
  shows "(\<exists>code now env. op = Handle_verification_code uid code now Password_needed env
            \<and> session_manager (proxy_step op h)
                = snd (verify_code uid code now Password_needed (session_manager h)))
         \<and> stored_status (session_manager h) uid = Some ''code_sent''"
proof -
  have inv: "code_step_inv h" using assms(1) by (simp add: proxy_run_inv init_proxy_inv)
  from assms(2,3) have ne: "session_manager (proxy_step op h) \<noteq> session_manager h" by auto
  with proxy_step_sessions[of op h] obtain aop where
    aop: "session_manager (proxy_step op h) = step aop (session_manager h)"
    and v: "\<forall>u code now outcome. aop = Verify_code u code now outcome \<longrightarrow>
              awaiting_code h u \<and> (\<exists>env. op = Handle_verification_code u code now outcome env)"
    by blast
  from step_status[of aop "session_manager h" uid] assms(2,3) aop
  obtain code now a where c: "aop = Verify_code uid code now Password_needed"
    and s: "active_sessions (session_manager h) uid = Some a"
    by auto
  from v c obtain env where aw: "awaiting_code h uid"
    and op: "op = Handle_verification_code uid code now Password_needed env" by blast
  from inv aw have "stored_status (session_manager h) uid \<in> {None, Some ''code_sent''}"
    by (simp add: code_step_inv_def)
  with s have "stored_status (session_manager h) uid = Some ''code_sent''"
    by (auto simp: stored_status_def)
  with op aop c show ?thesis by auto
qed

text \<open>User 7 was sent a code; the provider then asks for the second factor.\<close>

theorem password_required_only_from_code_sent_witness:
  "stored_status (session_manager
      (proxy_step (Handle_verification_code 7 ''123456'' 100 Password_needed complete_ok)
         code_requested_proxy)) 7 = Some ''password_required''
   \<and> stored_status (session_manager code_requested_proxy) 7 = Some ''code_sent''
   \<and> (\<exists>code now env.
         Handle_verification_code 7 ''123456'' 100 Password_needed complete_ok
           = Handle_verification_code 7 code now Password_needed env
         \<and> session_manager
             (proxy_step (Handle_verification_code 7 ''123456'' 100 Password_needed complete_ok)
                code_requested_proxy)
           = snd (verify_code 7 code now Password_needed (session_manager code_requested_proxy)))"
proof -
  have a: "stored_status (session_manager
      (proxy_step (Handle_verification_code 7 ''123456'' 100 Password_needed complete_ok)
         code_requested_proxy)) 7 = Some ''password_required''"
    by (simp add: proxy_defs auth_defs)
  have b: "stored_status (session_manager code_requested_proxy) 7 = Some ''code_sent''"
    by (simp add: proxy_defs auth_defs)
  then have c: "stored_status (session_manager code_requested_proxy) 7
      \<noteq> Some ''password_required''" by simp
  from password_required_only_from_code_sent[OF code_requested_proxy_def a c] a b
  show ?thesis by simp
qed

subsection \<open>Deadlines and wrong codes\<close>

text \<open>
  Claim C3 at a failing input. User 7's session has status \<^verbatim>\<open>password_required\<close> and
  deadline 300. At time 1000 \<^verbatim>\<open>verify_code\<close> rejects the call and discards the
  session, but \<^verbatim>\<open>verify_password\<close>, which never reads the clock, accepts the
  password: it returns success and the session is stored as \<^verbatim>\<open>authenticated\<close>.
\<close>

theorem verify_password_ignores_expiry:
  "map_option expires_at (active_sessions password_required_manager 7) = Some 300
   \<and> stored_status password_required_manager 7 = Some ''password_required''
   \<and> fst (verify_code 7 ''123456'' 1000 Signed_in password_required_manager)
       = failure ''Authentication session expired''
   \<and> active_sessions (snd (verify_code 7 ''123456'' 1000 Signed_in password_required_manager)) 7
       = None
   \<and> success (fst (verify_password 7 ''secret'' Password_accepted password_required_manager))
   \<and> stored_status
       (snd (verify_password 7 ''secret'' Password_accepted password_required_manager)) 7
       = Some ''authenticated''"
  by (simp add: password_required_manager_def auth_defs)

text \<open>
  Claim C8. On a session with status \<^verbatim>\<open>code_sent\<close> whose deadline has not passed, a
  \<^verbatim>\<open>verify_code\<close> call that the provider answers with \<^verbatim>\<open>PhoneCodeInvalidError\<close>
  returns failure; the sessions (every field, so the status and the deadline) and the
  clients are as before, and the only request made to the provider is the sign-in itself:
  no code request is sent. (Without a stored client not even that request is made.)
\<close>

theorem verify_code_incorrect:
  assumes "active_sessions s uid = Some auth_session"
    and "auth_status auth_session = ''code_sent''"
    and "\<not> now > expires_at auth_session"
  shows "\<not> success (fst (verify_code uid code now Code_invalid s))
    \<and> active_sessions (snd (verify_code uid code now Code_invalid s)) = active_sessions s
    \<and> authenticated_clients (snd (verify_code uid code now Code_invalid s))
        = authenticated_clients s
    \<and> provider_calls (snd (verify_code uid code now Code_invalid s)) =
        (if authenticated_clients s uid = None then provider_calls s
         else (provider_calls s)
           (uid := provider_calls s uid
              @ [Sign_in_code (auth_phone auth_session) code (code_hash auth_session)]))"
  using assms by (simp add: verify_code_def failure_def called_def split: option.splits)

theorem verify_code_incorrect_witness:
  "map_option auth_status (active_sessions code_sent_manager 7) = Some ''code_sent''
   \<and> \<not> (100::real) > 300
   \<and> \<not> success (fst (verify_code 7 ''000000'' 100 Code_invalid code_sent_manager))
   \<and> active_sessions (snd (verify_code 7 ''000000'' 100 Code_invalid code_sent_manager))
       = active_sessions code_sent_manager
   \<and> provider_calls (snd (verify_code 7 ''000000'' 100 Code_invalid code_sent_manager)) 7
       = [Connect, Is_user_authorized, Send_code_request ''+3000'',
          Sign_in_code ''+3000'' ''000000'' (Some ''h1'')]"
proof -
  let ?sess = "\<lparr>auth_user_id = 7, auth_phone = ''+3000'', auth_api_id = 12345,
      auth_api_hash = ''hash'', session_file = telegram_session_path 7,
      auth_status = ''code_sent'', code_hash = Some ''h1'',
      auth_created_at = 0, expires_at = 300\<rparr>"
  have a: "active_sessions code_sent_manager 7 = Some ?sess"
    by (simp add: code_sent_manager_def auth_defs)
  have b: "auth_status ?sess = ''code_sent''" by simp
  have c: "\<not> (100::real) > expires_at ?sess" by simp
  have d: "authenticated_clients code_sent_manager 7 \<noteq> None"
    "provider_calls code_sent_manager 7
       = [Connect, Is_user_authorized, Send_code_request ''+3000'']"
    by (simp_all add: code_sent_manager_def auth_defs)
  from verify_code_incorrect[OF a b c, of "''000000''"] a d show ?thesis by simp
qed


section \<open>Secure cleanup\<close>














end
